theory Spec2Isabelle
  imports Complex_Main "HOL-Library.Sublist" "HOL-Library.Word"
begin

section \<open>JavaScript strings\<close>

text \<open>
  A JavaScript string is modelled as a \<open>string\<close> whose characters are the code units
  below 256 (ASCII and Latin-1), so that \<open>length\<close> is \<open>text.length\<close>. The character
  classes are those of a regular expression without flags: \<open>\s\<close>, \<open>\d\<close>, \<open>\w\<close>.
\<close>

definition isSpace :: "char \<Rightarrow> bool" where
  "isSpace c = ((of_char c :: nat) \<in> {9, 10, 11, 12, 13, 32, 160})"

definition isDigit :: "char \<Rightarrow> bool" where
  "isDigit c = (let k = (of_char c :: nat) in 48 \<le> k \<and> k \<le> 57)"

definition isWordChar :: "char \<Rightarrow> bool" where
  "isWordChar c =
     (let k = (of_char c :: nat)
      in (48 \<le> k \<and> k \<le> 57) \<or> (65 \<le> k \<and> k \<le> 90) \<or> (97 \<le> k \<and> k \<le> 122) \<or> k = 95)"

definition isUpper :: "char \<Rightarrow> bool" where
  "isUpper c =
     (let k = (of_char c :: nat)
      in (65 \<le> k \<and> k \<le> 90) \<or> (192 \<le> k \<and> k \<le> 222 \<and> k \<noteq> 215))"

definition toLowerChar :: "char \<Rightarrow> char" where
  "toLowerChar c = (if isUpper c then char_of ((of_char c :: nat) + 32) else c)"

definition toLowerCase :: "string \<Rightarrow> string" where
  "toLowerCase s = map toLowerChar s"

text \<open>
  \<open>s.includes(sub)\<close>, here \<open>includes_str s sub\<close>: \<open>sub\<close> occurs in \<open>s\<close> as a
  contiguous substring.
\<close>

fun includes_str :: "string \<Rightarrow> string \<Rightarrow> bool" where
  "includes_str [] sub = (sub = [])"
| "includes_str (c # cs) sub = (prefix sub (c # cs) \<or> includes_str cs sub)"

text \<open>\<open>keywords.some(kw => lowerMessage.includes(kw))\<close>\<close>

definition someIncluded :: "string \<Rightarrow> string list \<Rightarrow> bool" where
  "someIncluded lowerMessage keywords = list_ex (\<lambda>kw. includes_str lowerMessage kw) keywords"

text \<open>
  The regular expression \<open>/\b\d+\s*[.)]\s+\w+/\<close>. At a position that starts a match the
  greedy runs \<open>\d+\<close>, \<open>\s*\<close> and \<open>\s+\<close> can only be the maximal ones (a shorter run is
  followed by a character of the same class, which the next item rejects), so matching
  at one position is deterministic. The boundary \<open>\b\<close> before a digit holds at the start
  of the text and after a character that is not a word character.
\<close>

definition matchNumberedStep :: "string \<Rightarrow> bool" where
  "matchNumberedStep s =
     (takeWhile isDigit s \<noteq> [] \<and>
      (case dropWhile isSpace (dropWhile isDigit s) of
         [] \<Rightarrow> False
       | p # r \<Rightarrow> (p = CHR ''.'' \<or> p = CHR '')'') \<and>
           (case r of
              [] \<Rightarrow> False
            | sp # r' \<Rightarrow> isSpace sp \<and>
                (case dropWhile isSpace r' of [] \<Rightarrow> False | w # _ \<Rightarrow> isWordChar w))))"

fun numberedStepsFrom :: "bool \<Rightarrow> string \<Rightarrow> bool" where
  "numberedStepsFrom prevWord [] = False"
| "numberedStepsFrom prevWord (c # cs) =
     ((\<not> prevWord \<and> matchNumberedStep (c # cs)) \<or> numberedStepsFrom (isWordChar c) cs)"

definition hasNumberedSteps :: "string \<Rightarrow> bool" where
  "hasNumberedSteps message = numberedStepsFrom False message"

text \<open>The decimal digits of a natural number, as template literals print it.\<close>

fun decimal :: "nat \<Rightarrow> string" where
  "decimal k =
     (if k < 10 then [char_of (48 + k)] else decimal (k div 10) @ [char_of (48 + k mod 10)])"

section \<open>Task router: state\<close>

datatype route = LOCAL | CLOUD

text \<open>
  A task is the payload of a \<open>TASK\<close> message plus the fields the router derives. A field
  the object does not have yet (JavaScript \<open>undefined\<close>) is \<open>None\<close>. The fields \<open>id\<close>
  and \<open>context\<close> of the source are \<open>task_id\<close> and \<open>context_text\<close> here.
\<close>

record task =
  task_id :: string
  message :: "string option"
  channel :: string
  userId :: string
  receivedAt :: nat
  complexity :: "int option"
  priority :: "int option"
  route :: "route option"
  context_text :: "string option"
  realtime :: "bool option"
  privacyFlag :: "bool option"

record routerConfig =
  mode :: string
  threshold :: int
  privacyMode :: bool

text \<open>The messages the worker posts to the main thread, in the order posted.\<close>

datatype event =
    READY
  | QUEUED string nat
  | ROUTED string route int "int option" "bool option" "bool option"
  | EXECUTE_LOCAL string "string option"
  | EXECUTE_CLOUD string "string option"
  | STREAM string string
  | COMPLETE string string
  | ERROR string string
  | PREEMPTED string
  | DROPPED string string
  | CANCELLED string
  | QUEUE_CLEARED
  | STATUS nat "(string \<times> int option \<times> route option) option" nat nat nat

text \<open>
  The worker state. \<open>ragBooster\<close> is the external memory engine: \<open>None\<close> when it was
  never initialised, otherwise its \<open>assembleContext\<close>, which yields \<open>None\<close> when it throws.
  \<open>outbox\<close> collects what \<open>self.postMessage\<close> sent.
\<close>

record state =
  queue :: "task list"
  currentTask :: "task option"
  config :: routerConfig
  localModelLoaded :: bool
  cloudAvailable :: bool
  ragBooster :: "(string \<Rightarrow> string option) option"
  outbox :: "event list"

definition initialState :: state where
  "initialState =
     \<lparr>queue = [], currentTask = None,
      config = \<lparr>mode = ''auto'', threshold = 6, privacyMode = False\<rparr>,
      localModelLoaded = False, cloudAvailable = False, ragBooster = None,
      outbox = [READY]\<rparr>"

definition postMessage :: "event \<Rightarrow> state \<Rightarrow> state" where
  "postMessage e st = st\<lparr>outbox := outbox st @ [e]\<rparr>"

definition URGENT :: int where "URGENT = 3"
definition NORMAL :: int where "NORMAL = 2"
definition BACKGROUND :: int where "BACKGROUND = 1"

definition MAX_QUEUE_DEPTH :: nat where "MAX_QUEUE_DEPTH = 50"

section \<open>Complexity scoring, priority and routing\<close>

definition countTokens :: "string \<Rightarrow> nat" where
  "countTokens s = (length s + 3) div 4"

definition multiStepKeywords :: "string list" where
  "multiStepKeywords =
     [''then'', ''after'', ''next'', ''first'', ''second'', ''third'', ''finally'', ''step'']"

definition domainKeywords :: "string list list" where
  "domainKeywords =
     [[''code'', ''function'', ''programming'', ''javascript'', ''python'', ''debug'', ''error''],
      [''calculate'', ''solve'', ''equation'', ''math'', ''formula'', ''compute''],
      [''legal'', ''law'', ''contract'', ''regulation'', ''compliance'']]"

definition realtimeKeywords :: "string list" where
  "realtimeKeywords = [''now'', ''immediately'', ''quick'', ''fast'', ''urgent'']"

definition privacyKeywords :: "string list" where
  "privacyKeywords = [''private'', ''confidential'', ''secret'', ''personal'']"

text \<open>The loop over the keyword families, left at the first family that matches.\<close>

fun domainLoop :: "string \<Rightarrow> string list list \<Rightarrow> int \<Rightarrow> int" where
  "domainLoop lowerMessage [] score = score"
| "domainLoop lowerMessage (keywords # rest) score =
     (if someIncluded lowerMessage keywords then score + 2
      else domainLoop lowerMessage rest score)"

text \<open>\<open>task.message || ''\<close>\<close>

definition messageOrEmpty :: "task \<Rightarrow> string" where
  "messageOrEmpty t = (case message t of None \<Rightarrow> [] | Some s \<Rightarrow> s)"

definition complexityScore :: "string \<Rightarrow> int" where
  "complexityScore msg =
     (let lowerMessage = toLowerCase msg;
          tokenCount = countTokens msg;
          score0 = (0::int);
          score1 = (if tokenCount > 1000 then score0 + 2 else score0);
          score2 = (if tokenCount > 4000 then score1 + 2 else score1);
          hasMultiStep = someIncluded lowerMessage multiStepKeywords;
          score3 = (if hasMultiStep \<or> hasNumberedSteps msg then score2 + 3 else score2);
          score4 = domainLoop lowerMessage domainKeywords score3
      in min score4 10)"

text \<open>
  \<open>calculateComplexity\<close> returns the score and writes the two flags into the task;
  the privacy flag reads \<open>state.config.privacyMode\<close>.
\<close>

definition calculateComplexity :: "state \<Rightarrow> task \<Rightarrow> int \<times> task" where
  "calculateComplexity st t =
     (let lowerMessage = toLowerCase (messageOrEmpty t)
      in (complexityScore (messageOrEmpty t),
          t\<lparr>realtime := Some (someIncluded lowerMessage realtimeKeywords),
            privacyFlag := Some (someIncluded lowerMessage privacyKeywords
                                 \<or> privacyMode (config st))\<rparr>))"

definition determinePriority :: "task \<Rightarrow> int \<Rightarrow> int" where
  "determinePriority t c =
     (if c \<ge> 8 \<or> realtime t = Some True then URGENT
      else if c \<ge> 4 then NORMAL
      else BACKGROUND)"

definition makeRoutingDecision :: "state \<Rightarrow> task \<Rightarrow> int \<Rightarrow> route" where
  "makeRoutingDecision st t c =
     (if privacyFlag t = Some True then LOCAL
      else if realtime t = Some True \<and> localModelLoaded st then LOCAL
      else if mode (config st) = ''local'' then (if localModelLoaded st then LOCAL else CLOUD)
      else if mode (config st) = ''cloud'' then (if cloudAvailable st then CLOUD else LOCAL)
      else if c \<ge> threshold (config st) then (if cloudAvailable st then CLOUD else LOCAL)
      else (if localModelLoaded st then LOCAL else CLOUD))"

text \<open>
  The scoring table as the specification words it (thresholds "at least"), and the same
  table with the thresholds strict.
\<close>

definition scoringTable :: "bool \<Rightarrow> string \<Rightarrow> int" where
  "scoringTable strict msg =
     (let tokens = (length msg + 3) div 4;
          reaches = (\<lambda>bound. if strict then tokens > bound else tokens \<ge> bound);
          lengthPoints = (if reaches 1000 then 2 else 0) + (if reaches 4000 then 2 else 0);
          multiStepPoints =
            (if (\<exists>kw \<in> set multiStepKeywords. includes_str (toLowerCase msg) kw)
                \<or> hasNumberedSteps msg then 3 else 0);
          domainPoints =
            (if (\<exists>family \<in> set domainKeywords. \<exists>kw \<in> set family.
                   includes_str (toLowerCase msg) kw) then 2 else 0)
      in min (lengthPoints + multiStepPoints + domainPoints) 10)"

section \<open>Task router: the queue\<close>

text \<open>
  \<open>a < b\<close> on two priorities: a comparison with \<open>undefined\<close> is false.
\<close>

definition js_lt :: "int option \<Rightarrow> int option \<Rightarrow> bool" where
  "js_lt a b = (case (a, b) of (Some x, Some y) \<Rightarrow> x < y | _ \<Rightarrow> False)"

text \<open>\<open>Array.prototype.findIndex\<close>, with \<open>None\<close> for the result \<open>-1\<close>.\<close>

fun findIndex :: "('a \<Rightarrow> bool) \<Rightarrow> 'a list \<Rightarrow> nat option" where
  "findIndex P [] = None"
| "findIndex P (x # xs) = (if P x then Some 0 else map_option Suc (findIndex P xs))"

text \<open>\<open>xs.splice(i, 1)\<close> and \<open>xs.splice(i, 0, x)\<close> for an index within the array.\<close>

definition spliceOut :: "nat \<Rightarrow> 'a list \<Rightarrow> 'a list" where
  "spliceOut i xs = take i xs @ drop (Suc i) xs"

definition spliceIn :: "nat \<Rightarrow> 'a \<Rightarrow> 'a list \<Rightarrow> 'a list" where
  "spliceIn i x xs = take i xs @ x # drop i xs"

text \<open>The first half of \<open>enqueueTask\<close>: the depth check and the eviction.\<close>

definition evictBackground :: "state \<Rightarrow> state" where
  "evictBackground st =
     (if length (queue st) \<ge> MAX_QUEUE_DEPTH then
        (case findIndex (\<lambda>q. priority q = Some BACKGROUND) (queue st) of
           Some backgroundIndex \<Rightarrow>
             postMessage (DROPPED (task_id (queue st ! backgroundIndex)) ''Queue overflow'')
               (st\<lparr>queue := spliceOut backgroundIndex (queue st)\<rparr>)
         | None \<Rightarrow> st)
      else st)"

text \<open>The second half: the insertion in priority order.\<close>

definition insertByPriority :: "task \<Rightarrow> task list \<Rightarrow> task list" where
  "insertByPriority t q =
     (case findIndex (\<lambda>x. js_lt (priority x) (priority t)) q of
        None \<Rightarrow> q @ [t]
      | Some insertIndex \<Rightarrow> spliceIn insertIndex t q)"

definition enqueueTask :: "state \<Rightarrow> task \<Rightarrow> state" where
  "enqueueTask st t =
     (let st1 = evictBackground st in st1\<lparr>queue := insertByPriority t (queue st1)\<rparr>)"

text \<open>
  \<open>dequeueTask\<close> returns the next task (\<open>None\<close> for \<open>null\<close>) and the new state. The
  preemption branch puts the current task at the head of the queue and then removes
  every task with the identifier of the urgent task.
\<close>

definition dequeueTask :: "state \<Rightarrow> task option \<times> state" where
  "dequeueTask st =
     (case (case currentTask st of
              None \<Rightarrow> None
            | Some cur \<Rightarrow>
                if js_lt (priority cur) (Some URGENT)
                then (case find (\<lambda>q. priority q = Some URGENT) (queue st) of
                        None \<Rightarrow> None
                      | Some urgentTask \<Rightarrow> Some (cur, urgentTask))
                else None) of
        Some (cur, urgentTask) \<Rightarrow>
          (Some urgentTask,
           (postMessage (PREEMPTED (task_id cur)) st)
             \<lparr>queue := filter (\<lambda>q. task_id q \<noteq> task_id urgentTask) (cur # queue st)\<rparr>)
      | None \<Rightarrow>
          (case queue st of
             [] \<Rightarrow> (None, st)
           | next_task # rest \<Rightarrow> (Some next_task, st\<lparr>queue := rest\<rparr>)))"

section \<open>Task router: dispatch\<close>

definition executeTask :: "state \<Rightarrow> task \<Rightarrow> state" where
  "executeTask st t =
     (let st1 = st\<lparr>currentTask := Some t\<rparr>
      in if route t = Some LOCAL
         then postMessage (EXECUTE_LOCAL (task_id t) (context_text t)) st1
         else postMessage (EXECUTE_CLOUD (task_id t) (context_text t)) st1)"

text \<open>
  The body of \<open>processTask\<close> up to the end of its \<open>try\<close> block: scoring, priority,
  route, context, the \<open>ROUTED\<close> message and the hand-over to the executor. A failing
  context assembly keeps the raw message; nothing else in the block throws on a task of
  this type, so the \<open>catch\<close> block is not entered.
\<close>

definition assembleContext :: "state \<Rightarrow> task \<Rightarrow> string option" where
  "assembleContext st t =
     (case ragBooster st of
        None \<Rightarrow> message t
      | Some rag \<Rightarrow>
          (case message t of
             None \<Rightarrow> None
           | Some m \<Rightarrow> (case rag m of None \<Rightarrow> Some m | Some enriched \<Rightarrow> Some enriched)))"

definition dispatchTask :: "state \<Rightarrow> task \<Rightarrow> state" where
  "dispatchTask st t0 =
     (let (c, t1) = calculateComplexity st t0;
          t2 = t1\<lparr>complexity := Some c\<rparr>;
          t3 = t2\<lparr>priority := Some (determinePriority t2 c)\<rparr>;
          r = makeRoutingDecision st t3 c;
          t4 = t3\<lparr>route := Some r\<rparr>;
          t5 = t4\<lparr>context_text := assembleContext st t4\<rparr>;
          st1 = postMessage
                  (ROUTED (task_id t5) r c (priority t5) (realtime t5) (privacyFlag t5)) st
      in executeTask st1 t5)"

text \<open>
  \<open>processTask\<close>: after the \<open>try\<close> block its \<open>finally\<close> block frees the current-task
  slot and goes on with the next queued task (\<open>processNextTask\<close>, which calls
  \<open>processTask\<close> again). The \<open>await\<close> points are taken in program order, with no other
  message handled in between.
\<close>

function processTask :: "state \<Rightarrow> task \<Rightarrow> state" where
  "processTask st t =
     (let st1 = dispatchTask st t;
          st2 = st1\<lparr>currentTask := None\<rparr>
      in case dequeueTask st2 of
           (None, st3) \<Rightarrow> st3
         | (Some nextTask, st3) \<Rightarrow> processTask st3 nextTask)"
  by pat_completeness auto
termination
  apply (relation "measure (\<lambda>(st, t). length (queue st))")
   apply simp
  apply (auto simp: dequeueTask_def dispatchTask_def executeTask_def postMessage_def Let_def
              split: list.splits prod.splits if_splits)
  done

definition processNextTask :: "state \<Rightarrow> state" where
  "processNextTask st =
     (case dequeueTask st of
        (None, st') \<Rightarrow> st'
      | (Some nextTask, st') \<Rightarrow> processTask st' nextTask)"

section \<open>Task router: configuration and the message handler\<close>

text \<open>
  The payload of a \<open>CONFIG\<close> message is a partial configuration: a field it does not
  carry is \<open>None\<close>. The object spread \<open>{ ...state.config, ...config }\<close> takes each field
  from the payload when it is there and from the old configuration otherwise.
\<close>

record configUpdate =
  new_mode :: "string option"
  new_threshold :: "int option"
  new_privacyMode :: "bool option"

definition spreadField :: "'a \<Rightarrow> 'a option \<Rightarrow> 'a" where
  "spreadField old new = (case new of None \<Rightarrow> old | Some v \<Rightarrow> v)"

definition updateConfig :: "state \<Rightarrow> configUpdate \<Rightarrow> state" where
  "updateConfig st upd =
     st\<lparr>config :=
          \<lparr>mode = spreadField (mode (config st)) (new_mode upd),
           threshold = spreadField (threshold (config st)) (new_threshold upd),
           privacyMode = spreadField (privacyMode (config st)) (new_privacyMode upd)\<rparr>\<rparr>"

definition updateModelStatus :: "state \<Rightarrow> bool option \<Rightarrow> bool option \<Rightarrow> state" where
  "updateModelStatus st local cloud =
     (let st1 = (case local of None \<Rightarrow> st | Some b \<Rightarrow> st\<lparr>localModelLoaded := b\<rparr>)
      in case cloud of None \<Rightarrow> st1 | Some b \<Rightarrow> st1\<lparr>cloudAvailable := b\<rparr>)"

definition getQueueStatus :: "state \<Rightarrow> event" where
  "getQueueStatus st =
     STATUS (length (queue st))
       (map_option (\<lambda>t. (task_id t, priority t, route t)) (currentTask st))
       (length (filter (\<lambda>t. priority t = Some URGENT) (queue st)))
       (length (filter (\<lambda>t. priority t = Some NORMAL) (queue st)))
       (length (filter (\<lambda>t. priority t = Some BACKGROUND) (queue st)))"

datatype msg =
    TASK task
  | CONFIG configUpdate
  | MODEL_STATUS "bool option" "bool option"
  | INIT_RAG "string \<Rightarrow> string option"
  | STREAM_TOKEN string string
  | COMPLETE_TASK string string
  | ERROR_TASK string string
  | GET_STATUS
  | CANCEL string
  | CLEAR_QUEUE
  | UNKNOWN

text \<open>
  \<open>self.onmessage\<close>; \<open>now\<close> is the value of \<open>Date.now()\<close> when the message is handled.
\<close>

fun onmessage :: "nat \<Rightarrow> state \<Rightarrow> msg \<Rightarrow> state" where
  "onmessage now st (TASK payload) =
     (let t = payload\<lparr>receivedAt := now\<rparr>
      in case currentTask st of
           Some _ \<Rightarrow>
             (let st1 = enqueueTask st t
              in postMessage (QUEUED (task_id t) (length (queue st1))) st1)
         | None \<Rightarrow> processTask st t)"
| "onmessage now st (CONFIG payload) = updateConfig st payload"
| "onmessage now st (MODEL_STATUS local cloud) = updateModelStatus st local cloud"
| "onmessage now st (INIT_RAG rag) = st\<lparr>ragBooster := Some rag\<rparr>"
| "onmessage now st (STREAM_TOKEN taskId token) = postMessage (STREAM taskId token) st"
| "onmessage now st (COMPLETE_TASK taskId response) = postMessage (COMPLETE taskId response) st"
| "onmessage now st (ERROR_TASK taskId err) = postMessage (ERROR taskId err) st"
| "onmessage now st GET_STATUS = postMessage (getQueueStatus st) st"
| "onmessage now st (CANCEL taskId) =
     (case findIndex (\<lambda>t. task_id t = taskId) (queue st) of
        Some cancelIndex \<Rightarrow>
          postMessage (CANCELLED taskId) (st\<lparr>queue := spliceOut cancelIndex (queue st)\<rparr>)
      | None \<Rightarrow> st)"
| "onmessage now st CLEAR_QUEUE = postMessage QUEUE_CLEARED (st\<lparr>queue := []\<rparr>)"
| "onmessage now st UNKNOWN = st"

text \<open>
  A run of the worker: the messages it receives, each with the time at which it is
  handled, applied in order.
\<close>

definition run :: "state \<Rightarrow> (nat \<times> msg) list \<Rightarrow> state" where
  "run st ms = foldl (\<lambda>s (now, m). onmessage now s m) st ms"

text \<open>
  The messages that speak of the queue, and the hand-overs to an executor.
\<close>

fun isQueueEvent :: "event \<Rightarrow> bool" where
  "isQueueEvent (QUEUED _ _) = True"
| "isQueueEvent (DROPPED _ _) = True"
| "isQueueEvent (PREEMPTED _) = True"
| "isQueueEvent (CANCELLED _) = True"
| "isQueueEvent _ = False"

fun isExecuteEvent :: "event \<Rightarrow> bool" where
  "isExecuteEvent (EXECUTE_LOCAL _ _) = True"
| "isExecuteEvent (EXECUTE_CLOUD _ _) = True"
| "isExecuteEvent _ = False"

fun isTaskMessage :: "nat \<times> msg \<Rightarrow> bool" where
  "isTaskMessage (_, TASK _) = True"
| "isTaskMessage _ = False"

text \<open>
  The worker at rest: no task holds the current-task slot, nothing is queued, and no
  message about the queue has been posted so far.
\<close>

definition idle :: "state \<Rightarrow> bool" where
  "idle st = (currentTask st = None \<and> queue st = [] \<and> \<not> list_ex isQueueEvent (outbox st))"

text \<open>
  A task as the user interface submits it (\<open>handleUserMessage\<close>): the identifier
  \<open>task_i\<close>, the message, a channel and a user, and none of the derived fields.
\<close>

definition submittedTask :: "nat \<Rightarrow> string \<Rightarrow> task" where
  "submittedTask i m =
     \<lparr>task_id = ''task_'' @ decimal i, message = Some m, channel = ''webchat'',
      userId = ''user'', receivedAt = 0, complexity = None, priority = None, route = None,
      context_text = None, realtime = None, privacyFlag = None\<rparr>"

text \<open>
  Three runs in which no task is ever reported complete. In the first a task of NORMAL
  complexity is followed by one that carries the word "urgent"; in the second by a
  BACKGROUND one and then the urgent one; in the third by fifty BACKGROUND ones and a
  further NORMAL one.
\<close>

definition urgentArrival :: "(nat \<times> msg) list" where
  "urgentArrival =
     [(1, TASK (submittedTask 1 ''first check the code, then report'')),
      (2, TASK (submittedTask 2 ''urgent: server down''))]"


definition overflowArrivals :: "(nat \<times> msg) list" where
  "overflowArrivals =
     (0, TASK (submittedTask 0 ''first check the code, then report''))
     # map (\<lambda>i. (i, TASK (submittedTask i ''Hi''))) [1..<51]
     @ [(51, TASK (submittedTask 51 ''first check the code, then report''))]"

section \<open>Memory: the gravitational bit\<close>

text \<open>
  An orbital state, with the quantum numbers \<open>n\<close>, \<open>l\<close>, \<open>m\<close> of the source as \<open>orb_n\<close>,
  \<open>orb_l\<close>, \<open>orb_m\<close>. The energy \<open>-1.0 / (n * n) + 0.1 * l\<close> is a real number here (the
  source computes it in double precision); the random phase, which nothing reads, is left
  out.
\<close>

record orbitalState =
  orb_n :: nat
  orb_l :: nat
  orb_m :: int
  occupied :: bool
  energy :: real

record gravitationalBit =
  nMax :: nat
  states :: "orbitalState list"
  encodedValue :: int

text \<open>
  The three nested loops of \<open>generateStates\<close>, then the stable sort by energy.
\<close>

definition generateStates :: "nat \<Rightarrow> orbitalState list" where
  "generateStates nmax =
     sort_key energy
       (concat (map (\<lambda>n. concat (map (\<lambda>l. map (\<lambda>m.
            \<lparr>orb_n = n, orb_l = l, orb_m = m, occupied = False,
             energy = - 1 / (real n * real n) + real l / 10\<rparr>)
          [- int l ..int l]) [0..<n])) [1..<Suc nmax]))"

definition newGravitationalBit :: "nat \<Rightarrow> gravitationalBit" where
  "newGravitationalBit nmax = \<lparr>nMax = nmax, states = generateStates nmax, encodedValue = 0\<rparr>"

definition capacity :: "gravitationalBit \<Rightarrow> nat" where
  "capacity b = min (length (states b)) 128"

text \<open>
  \<open>encode\<close>: all states are reset, then state \<open>i\<close> is occupied when
  \<open>(value >> i) & 1\<close> is 1, for \<open>i\<close> below the capacity.
\<close>

definition encodeStep :: "int \<Rightarrow> nat \<Rightarrow> orbitalState list \<Rightarrow> orbitalState list" where
  "encodeStep v i sts =
     (if and (drop_bit i v) 1 = 1 \<and> i < length sts
      then sts[i := (sts ! i)\<lparr>occupied := True\<rparr>]
      else sts)"

definition encode :: "gravitationalBit \<Rightarrow> int \<Rightarrow> gravitationalBit" where
  "encode b v =
     b\<lparr>encodedValue := v,
       states := fold (encodeStep v) [0..<capacity b]
                   (map (\<lambda>s. s\<lparr>occupied := False\<rparr>) (states b))\<rparr>"

text \<open>\<open>decode\<close>: \<open>value |= 1n << i\<close> for every occupied state \<open>i\<close>.\<close>

definition decodeStep :: "orbitalState list \<Rightarrow> nat \<Rightarrow> int \<Rightarrow> int" where
  "decodeStep sts i v = (if occupied (sts ! i) then or v (push_bit i 1) else v)"

definition decode :: "gravitationalBit \<Rightarrow> int" where
  "decode b = fold (decodeStep (states b)) [0..<length (states b)] 0"

text \<open>
  The serialised form is a plain object with the same fields (the encoded value goes
  through its decimal string and back). \<open>deserialize\<close> builds a fresh bit for \<open>nMax\<close>
  and copies \<open>occupied\<close> and \<open>energy\<close> into it, index by index, as far as both state
  arrays reach.
\<close>

definition serialize :: "gravitationalBit \<Rightarrow> gravitationalBit" where
  "serialize b = \<lparr>nMax = nMax b, states = states b, encodedValue = encodedValue b\<rparr>"

definition deserialize :: "gravitationalBit \<Rightarrow> gravitationalBit" where
  "deserialize d =
     (let fresh = newGravitationalBit (nMax d)
      in fresh\<lparr>encodedValue := encodedValue d,
               states :=
                 map (\<lambda>(s, f). f\<lparr>occupied := occupied s, energy := energy s\<rparr>)
                     (zip (states d) (states fresh))
                 @ drop (length (states d)) (states fresh)\<rparr>)"

text \<open>
  \<open>hashText\<close>: \<open>digest\<close> stands for \<open>crypto.subtle.digest('SHA-256', ...)\<close> applied to the
  UTF-8 bytes of the text; the first 16 bytes are read big-endian.
\<close>

definition hashText :: "(string \<Rightarrow> 8 word list) \<Rightarrow> string \<Rightarrow> int" where
  "hashText digest txt =
     foldl (\<lambda>hash byte. or (push_bit 8 hash) (uint byte)) 0 (take 16 (digest txt))"

definition fromText :: "(string \<Rightarrow> 8 word list) \<Rightarrow> string \<Rightarrow> nat \<Rightarrow> gravitationalBit" where
  "fromText digest txt nmax = encode (newGravitationalBit nmax) (hashText digest txt)"

section \<open>Memory: chunks\<close>

text \<open>\<open>s.split(/\s+/)\<close>: the pieces between the maximal runs of white space.\<close>

fun splitLoop :: "bool \<Rightarrow> string \<Rightarrow> string \<Rightarrow> string list" where
  "splitLoop inSeparator cur [] = [rev cur]"
| "splitLoop inSeparator cur (c # cs) =
     (if isSpace c then
        (if inSeparator then splitLoop True cur cs else rev cur # splitLoop True [] cs)
      else splitLoop False (c # cur) cs)"

definition splitWhitespace :: "string \<Rightarrow> string list" where
  "splitWhitespace s = splitLoop False [] s"

text \<open>
  \<open>text.split(/(?<=[.!?])\s+/)\<close>: a separator is a maximal run of white space that
  follows one of the three sentence marks.
\<close>

definition isSentenceEnd :: "char \<Rightarrow> bool" where
  "isSentenceEnd c = (c = CHR ''.'' \<or> c = CHR ''!'' \<or> c = CHR ''?'')"

fun sentenceLoop :: "bool \<Rightarrow> bool \<Rightarrow> string \<Rightarrow> string \<Rightarrow> string list" where
  "sentenceLoop inSeparator afterMark cur [] = [rev cur]"
| "sentenceLoop inSeparator afterMark cur (c # cs) =
     (if isSpace c \<and> inSeparator then sentenceLoop True False cur cs
      else if isSpace c \<and> afterMark then rev cur # sentenceLoop True False [] cs
      else sentenceLoop False (isSentenceEnd c) (c # cur) cs)"

definition splitSentences :: "string \<Rightarrow> string list" where
  "splitSentences s = sentenceLoop False False [] s"

text \<open>\<open>parts.join(' ')\<close>\<close>

fun joinSpace :: "string list \<Rightarrow> string" where
  "joinSpace [] = []"
| "joinSpace [s] = s"
| "joinSpace (s # rest) = s @ '' '' @ joinSpace rest"

fun chunkLoop :: "nat \<Rightarrow> string list \<Rightarrow> string list \<Rightarrow> nat \<Rightarrow> string list" where
  "chunkLoop targetWordCount [] currentChunk currentWordCount =
     (if currentChunk \<noteq> [] then [joinSpace currentChunk] else [])"
| "chunkLoop targetWordCount (sentence # rest) currentChunk currentWordCount =
     (let wordCount = length (splitWhitespace sentence)
      in if currentWordCount + wordCount > targetWordCount \<and> currentChunk \<noteq> []
         then joinSpace currentChunk # chunkLoop targetWordCount rest [sentence] wordCount
         else chunkLoop targetWordCount rest (currentChunk @ [sentence])
                (currentWordCount + wordCount))"

definition chunkText :: "string \<Rightarrow> nat \<Rightarrow> string list" where
  "chunkText txt targetWordCount = chunkLoop targetWordCount (splitSentences txt) [] 0"

text \<open>
  The record \<open>GravitationalMemory.store\<close> writes for chunk \<open>i\<close> of a document. Of the
  metadata only the title is read later (by the search). \<open>store\<close> is modelled by the
  list of the records it writes, to the cache and through \<open>storeFn\<close>; \<open>now\<close> is the
  value of \<open>Date.now()\<close>.
\<close>

record chunkData =
  chunk_key :: string
  chunk_docId :: string
  chunk_index :: nat
  chunk_bit :: gravitationalBit
  chunk_text :: string
  chunk_title :: "string option"
  chunk_timestamp :: nat

definition storeChunk ::
  "(string \<Rightarrow> 8 word list) \<Rightarrow> string \<Rightarrow> string option \<Rightarrow> nat \<Rightarrow> nat \<Rightarrow> string \<Rightarrow> chunkData"
where
  "storeChunk digest docId title now i chunk =
     \<lparr>chunk_key = docId @ ''_chunk_'' @ decimal i,
      chunk_docId = docId,
      chunk_index = i,
      chunk_bit = serialize (fromText digest chunk 8),
      chunk_text = chunk,
      chunk_title = title,
      chunk_timestamp = now\<rparr>"

definition store ::
  "(string \<Rightarrow> 8 word list) \<Rightarrow> string \<Rightarrow> string \<Rightarrow> string option \<Rightarrow> nat \<Rightarrow> chunkData list"
where
  "store digest docId txt title now =
     (let chunks = chunkText txt 300
      in map (\<lambda>i. storeChunk digest docId title now i (chunks ! i)) [0..<length chunks])"

text \<open>
  \<open>GravitationalMemory.verify\<close> on a chunk that was found: the value decoded from the
  stored bitmap against the hash recomputed from the stored text.
\<close>

definition verify :: "(string \<Rightarrow> 8 word list) \<Rightarrow> chunkData \<Rightarrow> bool" where
  "verify digest chunk =
     (decode (deserialize (chunk_bit chunk)) = hashText digest (chunk_text chunk))"

section \<open>Memory: search\<close>

text \<open>
  A JavaScript number that may be \<open>NaN\<close>. Sums, products, quotients and logarithms of
  numbers are taken over the reals (the source computes them in double precision).
\<close>

datatype jsnumber = Num real | NaN

fun js_add :: "jsnumber \<Rightarrow> jsnumber \<Rightarrow> jsnumber" where
  "js_add (Num x) (Num y) = Num (x + y)"
| "js_add _ _ = NaN"

fun js_mul :: "jsnumber \<Rightarrow> jsnumber \<Rightarrow> jsnumber" where
  "js_mul (Num x) (Num y) = Num (x * y)"
| "js_mul _ _ = NaN"

text \<open>\<open>a < b\<close> and \<open>a >= b\<close> on numbers: false when either side is \<open>NaN\<close>.\<close>

fun js_less :: "jsnumber \<Rightarrow> jsnumber \<Rightarrow> bool" where
  "js_less (Num x) (Num y) = (x < y)"
| "js_less _ _ = False"

fun js_ge :: "jsnumber \<Rightarrow> jsnumber \<Rightarrow> bool" where
  "js_ge (Num x) (Num y) = (x \<ge> y)"
| "js_ge _ _ = False"

text \<open>
  \<open>queryWordFreq\<close> is a plain object filled by
  \<open>queryWordFreq[w] = (queryWordFreq[w] || 0) + 1\<close>. For an ordinary word the entry is
  its count. The two lower-case property names that a plain object inherits behave
  otherwise: under \<open>constructor\<close> the inherited function is read, so the entry becomes a
  string that is not a number; an assignment to \<open>__proto__\<close> of a value that is not an
  object stores nothing. The entries are kept in insertion order (the order in which
  \<open>Object.entries\<close> lists them does not change a sum of reals).
\<close>

fun bumpFreq :: "string \<Rightarrow> (string \<times> jsnumber) list \<Rightarrow> (string \<times> jsnumber) list" where
  "bumpFreq w [] = [(w, if w = ''constructor'' then NaN else Num 1)]"
| "bumpFreq w ((k, v) # rest) =
     (if k = w then (k, js_add v (Num 1)) # rest else (k, v) # bumpFreq w rest)"

definition queryWords :: "string \<Rightarrow> string list" where
  "queryWords query = filter (\<lambda>w. length w > 2) (splitWhitespace (toLowerCase query))"

definition queryWordFreq :: "string \<Rightarrow> (string \<times> jsnumber) list" where
  "queryWordFreq query =
     fold (\<lambda>w table. if w = ''__proto__'' then table else bumpFreq w table)
          (queryWords query) []"

text \<open>The inverse document frequency of a word in the corpus \<open>allChunks\<close>.\<close>

definition idf :: "chunkData list \<Rightarrow> string \<Rightarrow> real" where
  "idf allChunks word =
     ln (real (length allChunks) /
         real (1 + length (filter (\<lambda>c. includes_str (toLowerCase (chunk_text c)) word)
                             allChunks)))"

text \<open>One round of the loop over the entries of \<open>queryWordFreq\<close>.\<close>

definition scoreStep ::
  "chunkData list \<Rightarrow> string list \<Rightarrow> string \<times> jsnumber \<Rightarrow> jsnumber \<Rightarrow> jsnumber" where
  "scoreStep allChunks chunkWords entry score =
     (let word = fst entry; queryFreq = snd entry;
          chunkFreq = length (filter (\<lambda>w. w = word) chunkWords)
      in if chunkFreq > 0
         then js_add score
                (js_mul (Num (real chunkFreq / real (length chunkWords) * idf allChunks word))
                        queryFreq)
         else score)"

text \<open>The score \<open>search\<close> gives a chunk, for a query and the corpus \<open>allChunks\<close>.\<close>

definition searchScore :: "string \<Rightarrow> chunkData list \<Rightarrow> chunkData \<Rightarrow> jsnumber" where
  "searchScore query allChunks chunk =
     (let lowerText = toLowerCase (chunk_text chunk);
          chunkWords = filter (\<lambda>w. length w > 2) (splitWhitespace lowerText);
          score1 = fold (scoreStep allChunks chunkWords) (queryWordFreq query) (Num 0);
          score2 = (if includes_str lowerText (toLowerCase query)
                    then js_mul score1 (Num 2) else score1)
      in case chunk_title chunk of
           None \<Rightarrow> score2
         | Some title \<Rightarrow>
             if includes_str (toLowerCase title) (toLowerCase query)
             then js_mul score2 (Num (3 / 2)) else score2)"

text \<open>
  \<open>search\<close> without metadata in the results: the texts of the chunks whose score
  reaches \<open>minScore\<close>, best first (the sort is stable), at most \<open>topK\<close> of them.
\<close>

definition jsValue :: "jsnumber \<Rightarrow> real" where
  "jsValue s = (case s of Num x \<Rightarrow> x | NaN \<Rightarrow> 0)"

definition search :: "string \<Rightarrow> nat \<Rightarrow> real \<Rightarrow> chunkData list \<Rightarrow> string list" where
  "search query topK minScore allChunks =
     (if allChunks = [] then []
      else
        (let scored = map (\<lambda>c. (c, searchScore query allChunks c)) allChunks;
             filtered = filter (\<lambda>s. js_ge (snd s) (Num minScore)) scored;
             sorted_desc = sort_key (\<lambda>s. - jsValue (snd s)) filtered
         in map (\<lambda>s. chunk_text (fst s)) (take topK sorted_desc)))"

text \<open>
  A digest function for examples (every digest is 32 bytes \<open>0xAB\<close>), and a stored chunk
  with the given text, as \<open>store\<close> writes it for the document \<open>doc\<close> under that digest.
\<close>

definition exampleDigest :: "string \<Rightarrow> 8 word list" where
  "exampleDigest s = replicate 32 171"

definition exampleChunk :: "nat \<Rightarrow> string \<Rightarrow> chunkData" where
  "exampleChunk i chunk = storeChunk exampleDigest ''doc'' None 0 i chunk"

text \<open>
  One score is not below another: both are numbers in that order, or both are \<open>NaN\<close>.
\<close>

fun js_notBelow :: "jsnumber \<Rightarrow> jsnumber \<Rightarrow> bool" where
  "js_notBelow (Num y) (Num x) = (x \<le> y)"
| "js_notBelow NaN NaN = True"
| "js_notBelow _ _ = False"

section \<open>Configuration store: the API keys\<close>












section \<open>Properties of the task router\<close>

declare decimal.simps [simp del]

lemma includes_str_sublist: "includes_str s sub = sublist sub s"
  by (induction s) (auto simp: sublist_Cons_right)

lemma includes_str_set: "includes_str s sub \<Longrightarrow> set sub \<subseteq> set s"
  by (simp add: includes_str_sublist set_mono_sublist)

lemma privacyFlag_routes_local:
  "privacyFlag t = Some True \<Longrightarrow> makeRoutingDecision st t c = LOCAL"
  by (simp add: makeRoutingDecision_def)

lemma assembleContext_update:
  "assembleContext st (t\<lparr>route := r\<rparr>) = assembleContext st t"
  "assembleContext st (t\<lparr>priority := p\<rparr>) = assembleContext st t"
  "assembleContext st (t\<lparr>complexity := c\<rparr>) = assembleContext st t"
  "assembleContext st (t\<lparr>realtime := rt\<rparr>) = assembleContext st t"
  "assembleContext st (t\<lparr>privacyFlag := pf\<rparr>) = assembleContext st t"
  by (simp_all add: assembleContext_def split: option.splits)

lemma outbox_executeTask:
  "outbox (executeTask st t) =
     outbox st @ [(if route t = Some LOCAL then EXECUTE_LOCAL else EXECUTE_CLOUD)
                    (task_id t) (context_text t)]"
  by (simp add: executeTask_def postMessage_def Let_def)

lemma calculateComplexity_frame:
  "task_id (snd (calculateComplexity st t)) = task_id t"
  "message (snd (calculateComplexity st t)) = message t"
  "fst (calculateComplexity st t) = complexityScore (messageOrEmpty t)"
  by (simp_all add: calculateComplexity_def Let_def)

lemma outbox_dispatchTask:
  "outbox (dispatchTask st t) =
     (let c = fst (calculateComplexity st t); t1 = snd (calculateComplexity st t);
          p = Some (determinePriority (t1\<lparr>complexity := Some c\<rparr>) c);
          r = makeRoutingDecision st (t1\<lparr>complexity := Some c, priority := p\<rparr>) c
      in outbox st @ [ROUTED (task_id t) r c p (realtime t1) (privacyFlag t1),
                      (if r = LOCAL then EXECUTE_LOCAL else EXECUTE_CLOUD) (task_id t)
                        (assembleContext st t)])"
  by (simp add: dispatchTask_def calculateComplexity_def Let_def outbox_executeTask
        postMessage_def assembleContext_update)

text \<open>
  Claim C1. A task whose message contains a privacy keyword, or that is scored while
  \<open>privacyMode\<close> is on, gets \<open>privacyFlag = true\<close>, and \<open>makeRoutingDecision\<close> then
  answers \<open>LOCAL\<close> in every state \<open>st'\<close> (whatever the mode, the threshold and the two
  executor flags) and for every complexity; the dispatch of the task posts \<open>ROUTED\<close> with
  route \<open>LOCAL\<close> and hands the task to the local executor.
\<close>

theorem privacy_implies_local:
  assumes "someIncluded (toLowerCase (messageOrEmpty t)) privacyKeywords \<or> privacyMode (config st)"
  shows "privacyFlag (snd (calculateComplexity st t)) = Some True
       \<and> makeRoutingDecision st' (snd (calculateComplexity st t)) c = LOCAL
       \<and> (\<exists>c' p r. outbox (dispatchTask st t) =
             outbox st @ [ROUTED (task_id t) LOCAL c' p r (Some True),
                          EXECUTE_LOCAL (task_id t) (assembleContext st t)])"
proof -
  have flag: "privacyFlag (snd (calculateComplexity st t)) = Some True"
    using assms by (auto simp: calculateComplexity_def Let_def)
  define c1 where "c1 = fst (calculateComplexity st t)"
  define t1 where "t1 = snd (calculateComplexity st t)"
  define p where "p = Some (determinePriority (t1\<lparr>complexity := Some c1\<rparr>) c1)"
  have r: "makeRoutingDecision st (t1\<lparr>complexity := Some c1, priority := p\<rparr>) c1 = LOCAL"
    by (rule privacyFlag_routes_local) (simp add: t1_def flag)
  have "outbox (dispatchTask st t) =
          outbox st @ [ROUTED (task_id t) LOCAL c1 p (realtime t1) (Some True),
                       EXECUTE_LOCAL (task_id t) (assembleContext st t)]"
    unfolding outbox_dispatchTask Let_def
    using r flag unfolding c1_def t1_def p_def by simp
  then have out: "\<exists>c' p r. outbox (dispatchTask st t) =
             outbox st @ [ROUTED (task_id t) LOCAL c' p r (Some True),
                          EXECUTE_LOCAL (task_id t) (assembleContext st t)]"
    by blast
  show ?thesis by (intro conjI flag out privacyFlag_routes_local)
qed


theorem privacy_implies_local_witness:
  "makeRoutingDecision
     (initialState\<lparr>config := \<lparr>mode = ''cloud'', threshold = 0, privacyMode = False\<rparr>,
                   cloudAvailable := True\<rparr>)
     (snd (calculateComplexity initialState
        \<lparr>task_id = ''t1'', message = Some ''My SECRET plan'', channel = ''web'', userId = ''u'',
         receivedAt = 0, complexity = None, priority = None, route = None,
         context_text = None, realtime = None, privacyFlag = None\<rparr>)) 10 = LOCAL"
proof -
  have h: "someIncluded (toLowerCase (messageOrEmpty
        \<lparr>task_id = ''t1'', message = Some ''My SECRET plan'', channel = ''web'', userId = ''u'',
         receivedAt = 0, complexity = None, priority = None, route = None,
         context_text = None, realtime = None, privacyFlag = None\<rparr>)) privacyKeywords
      \<or> privacyMode (config initialState)"
    by code_simp
  show ?thesis using privacy_implies_local[OF h] by blast
qed

text \<open>
  Claim C10. \<open>updateConfig\<close> is a shallow merge: each of \<open>mode\<close>, \<open>threshold\<close> and
  \<open>privacyMode\<close> takes the value of the update when the update carries the field and
  keeps its previous value otherwise; nothing but the configuration changes; the \<open>CONFIG\<close>
  message does exactly this; a later scoring reads the merged \<open>privacyMode\<close>, and a
  later routing decision is the old one when neither \<open>mode\<close> nor \<open>threshold\<close> was in the
  update, and follows the new mode when the update carries one.
\<close>

theorem updateConfig_shallow_merge:
  "mode (config (updateConfig st upd)) =
     (case new_mode upd of None \<Rightarrow> mode (config st) | Some v \<Rightarrow> v)
   \<and> threshold (config (updateConfig st upd)) =
     (case new_threshold upd of None \<Rightarrow> threshold (config st) | Some v \<Rightarrow> v)
   \<and> privacyMode (config (updateConfig st upd)) =
     (case new_privacyMode upd of None \<Rightarrow> privacyMode (config st) | Some v \<Rightarrow> v)
   \<and> updateConfig st upd = st\<lparr>config := config (updateConfig st upd)\<rparr>
   \<and> onmessage now st (CONFIG upd) = updateConfig st upd
   \<and> privacyFlag (snd (calculateComplexity (updateConfig st upd) t)) =
       Some (someIncluded (toLowerCase (messageOrEmpty t)) privacyKeywords
             \<or> (case new_privacyMode upd of None \<Rightarrow> privacyMode (config st) | Some v \<Rightarrow> v))
   \<and> (new_mode upd = None \<and> new_threshold upd = None \<longrightarrow>
        makeRoutingDecision (updateConfig st upd) t c = makeRoutingDecision st t c)
   \<and> (new_mode upd = Some ''cloud'' \<and> privacyFlag t \<noteq> Some True
        \<and> \<not> (realtime t = Some True \<and> localModelLoaded st) \<longrightarrow>
        makeRoutingDecision (updateConfig st upd) t c
          = (if cloudAvailable st then CLOUD else LOCAL))"
  by (simp add: updateConfig_def spreadField_def calculateComplexity_def Let_def
        makeRoutingDecision_def split: option.splits)

theorem updateConfig_shallow_merge_witness:
  "mode (config (updateConfig initialState
       \<lparr>new_mode = Some ''cloud'', new_threshold = None, new_privacyMode = None\<rparr>)) = ''cloud''
   \<and> threshold (config (updateConfig initialState
       \<lparr>new_mode = Some ''cloud'', new_threshold = None, new_privacyMode = None\<rparr>)) = 6
   \<and> privacyMode (config (updateConfig initialState
       \<lparr>new_mode = Some ''cloud'', new_threshold = None, new_privacyMode = None\<rparr>)) = False"
  using updateConfig_shallow_merge[of initialState
          "\<lparr>new_mode = Some ''cloud'', new_threshold = None, new_privacyMode = None\<rparr>"]
  by (simp add: initialState_def)

lemma toLowerCase_replicate_z:
  "toLowerCase (replicate k (CHR ''z'')) = replicate k (CHR ''z'')"
proof -
  have "toLowerChar (CHR ''z'') = CHR ''z''" by code_simp
  then show ?thesis by (simp add: toLowerCase_def)
qed

lemma not_included_in_z:
  "CHR ''z'' \<notin> set kw \<Longrightarrow> kw \<noteq> [] \<Longrightarrow> \<not> includes_str (replicate k (CHR ''z'')) kw"
  using includes_str_set[of "replicate k (CHR ''z'')" kw] by (cases kw) auto

lemma numberedSteps_digit:
  "numberedStepsFrom p s \<Longrightarrow> \<exists>c \<in> set s. isDigit c"
proof (induction s arbitrary: p)
  case Nil
  then show ?case by simp
next
  case (Cons c cs)
  then show ?case
    by (auto simp: matchNumberedStep_def split: if_splits)
qed

lemma no_numberedSteps_z: "\<not> hasNumberedSteps (replicate k (CHR ''z''))"
proof -
  have "\<not> isDigit (CHR ''z'')" by code_simp
  then show ?thesis using numberedSteps_digit[of False "replicate k (CHR ''z'')"]
    by (auto simp: hasNumberedSteps_def)
qed

lemma someIncluded_z:
  "\<forall>kw \<in> set kws. CHR ''z'' \<notin> set kw \<and> kw \<noteq> [] \<Longrightarrow>
   \<not> someIncluded (replicate k (CHR ''z'')) kws"
  by (auto simp: someIncluded_def list_ex_iff not_included_in_z)

lemma complexityScore_z:
  "complexityScore (replicate k (CHR ''z'')) =
     (if (k + 3) div 4 > 4000 then 4 else if (k + 3) div 4 > 1000 then 2 else 0)"
proof -
  have m: "\<not> someIncluded (replicate k (CHR ''z'')) multiStepKeywords"
    by (rule someIncluded_z) (simp add: multiStepKeywords_def)
  have d: "domainLoop (replicate k (CHR ''z'')) domainKeywords sc = sc" for sc
    by (simp add: domainKeywords_def someIncluded_z)
  show ?thesis
    by (simp add: complexityScore_def Let_def toLowerCase_replicate_z countTokens_def m d
          no_numberedSteps_z)
qed

lemma scoringTable_z:
  "scoringTable False (replicate k (CHR ''z'')) =
     (if (k + 3) div 4 \<ge> 4000 then 4 else if (k + 3) div 4 \<ge> 1000 then 2 else 0)"
proof -
  have m: "\<not> (\<exists>kw \<in> set multiStepKeywords. includes_str (replicate k (CHR ''z'')) kw)"
    by (simp add: multiStepKeywords_def not_included_in_z)
  have d: "\<not> (\<exists>family \<in> set domainKeywords. \<exists>kw \<in> set family.
                 includes_str (replicate k (CHR ''z'')) kw)"
    by (simp add: domainKeywords_def not_included_in_z)
  show ?thesis
    unfolding scoringTable_def Let_def toLowerCase_replicate_z
    using m d no_numberedSteps_z[of k] by simp
qed

text \<open>
  Claim C4 as stated fails: a message of 4000 letters \<open>z\<close> has exactly 1000 approximate
  tokens; the table of the specification gives it 2 points, \<open>calculateComplexity\<close>
  gives 0, because the source compares with \<open>tokenCount > 1000\<close>. In the same way a
  message of 16000 letters has exactly 4000 tokens and gets 2 points where the table
  gives 4.
\<close>

theorem scoring_table_counterexample:
  "fst (calculateComplexity initialState
     \<lparr>task_id = ''t1'', message = Some (replicate 4000 (CHR ''z'')), channel = ''web'',
      userId = ''u'', receivedAt = 0, complexity = None, priority = None, route = None,
      context_text = None, realtime = None, privacyFlag = None\<rparr>) = 0
   \<and> scoringTable False (replicate 4000 (CHR ''z'')) = 2
   \<and> fst (calculateComplexity initialState
     \<lparr>task_id = ''t2'', message = Some (replicate 16000 (CHR ''z'')), channel = ''web'',
      userId = ''u'', receivedAt = 0, complexity = None, priority = None, route = None,
      context_text = None, realtime = None, privacyFlag = None\<rparr>) = 2
   \<and> scoringTable False (replicate 16000 (CHR ''z'')) = 4"
  by (simp add: calculateComplexity_frame messageOrEmpty_def complexityScore_z scoringTable_z)

lemma domainLoop_families:
  "domainLoop lm fams sc =
     (if (\<exists>family \<in> set fams. \<exists>kw \<in> set family. includes_str lm kw) then sc + 2 else sc)"
  by (induction fams) (auto simp: someIncluded_def list_ex_iff)

text \<open>
  Claim C4, amended. The score of \<open>calculateComplexity\<close> depends on the message only and
  equals the scoring table with strict length thresholds: +2 when the approximate token
  count \<open>ceil(len / 4)\<close> exceeds 1000, a further +2 when it exceeds 4000, +3 for a
  multi-step marker or a numbered step, +2 once for any domain keyword, capped at 10;
  it lies between 0 and 10.
\<close>

theorem complexity_scoring_strict:
  "fst (calculateComplexity st t) = scoringTable True (messageOrEmpty t)
   \<and> 0 \<le> fst (calculateComplexity st t) \<and> fst (calculateComplexity st t) \<le> 10"
  by (simp add: calculateComplexity_frame complexityScore_def scoringTable_def Let_def
        countTokens_def domainLoop_families someIncluded_def list_ex_iff)

theorem complexity_scoring_strict_witness:
  "fst (calculateComplexity initialState
     \<lparr>task_id = ''t1'', message = Some ''First debug step 1. now'', channel = ''web'',
      userId = ''u'', receivedAt = 0, complexity = None, priority = None, route = None,
      context_text = None, realtime = None, privacyFlag = None\<rparr>) = 5"
proof -
  have "scoringTable True ''First debug step 1. now'' = 5"
    by code_simp
  then show ?thesis
    using complexity_scoring_strict[of initialState
     "\<lparr>task_id = ''t1'', message = Some ''First debug step 1. now'', channel = ''web'',
      userId = ''u'', receivedAt = 0, complexity = None, priority = None, route = None,
      context_text = None, realtime = None, privacyFlag = None\<rparr>"]
    by (simp add: messageOrEmpty_def)
qed

text \<open>
  As written, \<open>processTask\<close> frees the current-task slot as soon as the task has been
  handed to the executor and goes on with the queue: when it is done no task is current
  and the queue is empty.
\<close>

lemma processTask_drains:
  "currentTask (processTask st t) = None \<and> queue (processTask st t) = []"
proof (induction st t rule: processTask.induct)
  case (1 st t)
  let ?st2 = "(dispatchTask st t)\<lparr>currentTask := None\<rparr>"
  show ?case
  proof (cases "queue ?st2")
    case Nil
    then have "dequeueTask ?st2 = (None, ?st2)" by (simp add: dequeueTask_def)
    then show ?thesis using Nil
      by (subst processTask.simps, subst processTask.simps) (simp add: Let_def)
  next
    case (Cons x rest)
    then have d: "dequeueTask ?st2 = (Some x, ?st2\<lparr>queue := rest\<rparr>)"
      by (simp add: dequeueTask_def)
    from "1.IH"[OF refl refl d[symmetric] refl]
    have "currentTask (processTask (?st2\<lparr>queue := rest\<rparr>) x) = None
          \<and> queue (processTask (?st2\<lparr>queue := rest\<rparr>) x) = []" .
    then show ?thesis using d
      by (subst processTask.simps, subst processTask.simps) (simp add: Let_def)
  qed
qed

text \<open>
  Between two messages the worker is always at rest, and every \<open>TASK\<close> message adds
  exactly one hand-over to an executor: \<open>executeTask\<close> fills the current-task slot, and
  the \<open>finally\<close> block of \<open>processTask\<close> empties it again before the next message is
  handled, so the handler never takes its \<open>if (state.currentTask)\<close> branch.
\<close>

lemma processTask_idle_queue:
  "queue st = [] \<Longrightarrow> processTask st t = (dispatchTask st t)\<lparr>currentTask := None\<rparr>"
proof -
  assume q: "queue st = []"
  have "queue ((dispatchTask st t)\<lparr>currentTask := None\<rparr>) = []"
    using q by (simp add: dispatchTask_def executeTask_def postMessage_def Let_def
                  split: prod.splits)
  then have "dequeueTask ((dispatchTask st t)\<lparr>currentTask := None\<rparr>)
             = (None, (dispatchTask st t)\<lparr>currentTask := None\<rparr>)"
    by (simp add: dequeueTask_def)
  then show ?thesis by (subst processTask.simps) (simp add: Let_def)
qed

lemma dispatch_events:
  "\<exists>r c p rt pf r2. outbox (dispatchTask st t) = outbox st @ [ROUTED (task_id t) r c p rt pf, r2]
      \<and> isExecuteEvent r2"
  by (auto simp: outbox_dispatchTask Let_def)

lemma idle_onmessage:
  assumes "idle st"
  shows "idle (onmessage now st m)
       \<and> length (filter isExecuteEvent (outbox (onmessage now st m)))
         = length (filter isExecuteEvent (outbox st)) + (if isTaskMessage (now, m) then 1 else 0)"
proof (cases m)
  case (TASK payload)
  let ?t = "payload\<lparr>receivedAt := now\<rparr>"
  have c: "currentTask st = None" and q: "queue st = []" using assms by (simp_all add: idle_def)
  have e: "onmessage now st m = (dispatchTask st ?t)\<lparr>currentTask := None\<rparr>"
    using TASK c processTask_idle_queue[OF q] by (simp add: Let_def)
  obtain r c' p rt pf r2 where
    o: "outbox (dispatchTask st ?t) = outbox st @ [ROUTED (task_id ?t) r c' p rt pf, r2]"
    and x: "isExecuteEvent r2" using dispatch_events[of st ?t] by blast
  have nq: "\<not> isQueueEvent r2" using x by (cases r2) simp_all
  have qq: "queue (dispatchTask st ?t) = []"
    using q by (simp add: dispatchTask_def executeTask_def postMessage_def Let_def
                  split: prod.splits)
  show ?thesis
    using assms TASK x nq qq unfolding e idle_def by (simp add: o)
next
  case (CANCEL taskId)
  then show ?thesis using assms by (simp add: idle_def)
qed (use assms in \<open>simp_all add: idle_def postMessage_def updateConfig_def updateModelStatus_def
       getQueueStatus_def Let_def split: option.splits\<close>)

lemma run_snoc: "run st (ms @ [(now, m)]) = onmessage now (run st ms) m"
  by (simp add: run_def)

lemma idle_run:
  "idle (run initialState ms)
   \<and> length (filter isExecuteEvent (outbox (run initialState ms)))
       = length (filter isTaskMessage ms)"
proof (induction ms rule: rev_induct)
  case Nil
  then show ?case by (simp add: run_def idle_def initialState_def)
next
  case (snoc x ms)
  obtain now m where x: "x = (now, m)" by (cases x)
  from snoc have i: "idle (run initialState ms)" by simp
  from idle_onmessage[OF i, of now m] snoc show ?case
    unfolding x run_snoc by simp
qed

text \<open>
  Claim C3. After every sequence of messages to the worker (submissions, cancellations,
  clearing the queue and all the others), with the enqueue and dequeue operations they
  set off, the queue holds at most \<open>MAX_QUEUE_DEPTH\<close> = 50 tasks: it is empty.
\<close>

theorem queue_bound_on_every_run:
  "queue (run initialState ms) = [] \<and> length (queue (run initialState ms)) \<le> MAX_QUEUE_DEPTH"
  using idle_run[of ms] by (simp add: idle_def)

theorem queue_bound_on_every_run_witness:
  "length (queue (run initialState overflowArrivals)) \<le> MAX_QUEUE_DEPTH"
  using queue_bound_on_every_run[of overflowArrivals] by simp


text \<open>
  Claim C5, at the run \<open>urgentArrival\<close>: a task of NORMAL priority is handed to the
  executor and, before it is reported complete, a task arrives that the router scores
  URGENT. The claim has the router cancel the running task, post \<open>PREEMPTED\<close> for it and
  put it back into the queue. The worker posts the routing decision and the hand-over of
  both tasks and nothing else: no \<open>PREEMPTED\<close>, nothing to the executor about the first
  task, and the first task is not in the queue afterwards.
\<close>

theorem urgent_arrival_not_preempted:
  "outbox (run initialState urgentArrival) =
     [READY,
      ROUTED ''task_1'' CLOUD 5 (Some NORMAL) (Some False) (Some False),
      EXECUTE_CLOUD ''task_1'' (Some ''first check the code, then report''),
      ROUTED ''task_2'' CLOUD 0 (Some URGENT) (Some True) (Some False),
      EXECUTE_CLOUD ''task_2'' (Some ''urgent: server down'')]
   \<and> currentTask (run initialState urgentArrival) = None
   \<and> queue (run initialState urgentArrival) = []"
proof -
  have "outbox (run initialState urgentArrival) =
     [READY,
      ROUTED ''task_1'' CLOUD 5 (Some NORMAL) (Some False) (Some False),
      EXECUTE_CLOUD ''task_1'' (Some ''first check the code, then report''),
      ROUTED ''task_2'' CLOUD 0 (Some URGENT) (Some True) (Some False),
      EXECUTE_CLOUD ''task_2'' (Some ''urgent: server down'')]"
    by code_simp
  moreover have "idle (run initialState urgentArrival)"
    using idle_run[of urgentArrival] by simp
  ultimately show ?thesis by (simp add: idle_def)
qed


text \<open>
  \<open>enqueueTask\<close> itself compares \<open>priority\<close> fields, but a task gets its priority in
  \<open>processTask\<close>, after it has left the queue: tasks as they are submitted carry none, and
  a queue of such tasks is extended at its end, whatever its length.
\<close>

lemma findIndex_none: "\<forall>x \<in> set xs. \<not> P x \<Longrightarrow> findIndex P xs = None"
  by (induction xs) auto

lemma enqueue_unscored_appends:
  assumes "priority t = None" and "\<forall>x \<in> set (queue st). priority x = None"
  shows "enqueueTask st t = st\<lparr>queue := queue st @ [t]\<rparr>"
proof -
  have "findIndex (\<lambda>q. priority q = Some BACKGROUND) (queue st) = None"
    using assms(2) by (intro findIndex_none) simp
  then have e: "evictBackground st = st" by (simp add: evictBackground_def)
  have "findIndex (\<lambda>x. js_lt (priority x) (priority t)) (queue st) = None"
    using assms(1) by (intro findIndex_none) (simp add: js_lt_def split: option.splits)
  then show ?thesis by (simp add: enqueueTask_def e insertByPriority_def)
qed

section \<open>Properties of the memory engine\<close>

lemma bit_decode_fold:
  "bit (fold (decodeStep sts) [0..<k] v0) j \<longleftrightarrow> bit v0 j \<or> (j < k \<and> occupied (sts ! j))"
proof (induction k)
  case 0
  then show ?case by simp
next
  case (Suc k)
  have "bit (push_bit k (1::int)) j \<longleftrightarrow> j = k"
    by (auto simp: bit_push_bit_iff bit_1_iff bit_exp_iff)
  then show ?case
    using Suc by (auto simp: decodeStep_def bit_or_iff less_Suc_eq)
qed

lemma bit_decode:
  "bit (decode b) j \<longleftrightarrow> j < length (states b) \<and> occupied (states b ! j)"
  by (simp add: decode_def bit_decode_fold)

lemma encodeStep_bit: "and (drop_bit i v) (1::int) = 1 \<longleftrightarrow> bit v i"
  by (simp add: and_one_eq bit_iff_odd_drop_bit mod_2_eq_odd)

lemma length_encodeStep: "length (encodeStep v i sts) = length sts"
  by (simp add: encodeStep_def)

lemma length_encode_fold: "length (fold (encodeStep v) [0..<k] sts) = length sts"
  by (induction k) (simp_all add: length_encodeStep)

lemma occupied_encodeStep:
  "j < length sts \<Longrightarrow>
   occupied (encodeStep v i sts ! j) \<longleftrightarrow> (i = j \<and> bit v i) \<or> occupied (sts ! j)"
  by (auto simp: encodeStep_def encodeStep_bit nth_list_update)

lemma occupied_encode_fold:
  "j < length sts \<Longrightarrow>
   occupied (fold (encodeStep v) [0..<k] sts ! j) \<longleftrightarrow> (j < k \<and> bit v j) \<or> occupied (sts ! j)"
proof (induction k)
  case 0
  then show ?case by simp
next
  case (Suc k)
  have "j < length (fold (encodeStep v) [0..<k] sts)"
    using Suc.prems by (simp add: length_encode_fold)
  from occupied_encodeStep[OF this, of v k] Suc.IH[OF Suc.prems]
  show ?case by (auto simp: less_Suc_eq)
qed

lemma length_states_encode: "length (states (encode b v)) = length (states b)"
  by (simp add: encode_def length_encode_fold)

lemma occupied_encode:
  "j < length (states b) \<Longrightarrow>
   occupied (states (encode b v) ! j) \<longleftrightarrow> j < capacity b \<and> bit v j"
  by (simp add: encode_def occupied_encode_fold)

lemma decode_encode: "decode (encode b v) = take_bit (capacity b) v"
proof (rule bit_eqI)
  fix j
  have "capacity b \<le> length (states b)" by (simp add: capacity_def)
  then show "bit (decode (encode b v)) j = bit (take_bit (capacity b) v) j"
    by (auto simp: bit_decode length_states_encode occupied_encode bit_take_bit_iff)
qed

lemma length_generateStates: "length (generateStates 8) = 204"
proof -
  have "[1..<Suc 8] = [1, 2, 3, 4, 5, 6, 7, 8]" by code_simp
  then show ?thesis
    by (simp add: generateStates_def length_concat comp_def upt_rec)
qed

lemma hash_step_bound:
  fixes h :: int
  assumes "0 \<le> h" "h < 2 ^ (8 * k)"
  shows "0 \<le> or (push_bit 8 h) (uint (b :: 8 word))
       \<and> or (push_bit 8 h) (uint b) < 2 ^ (8 * Suc k)"
proof -
  have p0: "0 \<le> push_bit 8 h" using assms(1) by simp
  have "h * 2 ^ 8 < 2 ^ (8 * k) * 2 ^ 8" using assms(2) by simp
  then have p1: "push_bit 8 h < 2 ^ (8 * Suc k)"
    by (simp add: push_bit_eq_mult power_add)
  have "uint b < 2 ^ 8" using uint_bounded[of b] by simp
  also have "(2::int) ^ 8 \<le> 2 ^ (8 * Suc k)" by (rule power_increasing) simp_all
  finally have u1: "uint b < 2 ^ (8 * Suc k)" .
  have "or (push_bit 8 h) (uint b) < 2 ^ (8 * Suc k)"
    using p0 p1 u1 by (rule OR_upper)
  moreover have "0 \<le> or (push_bit 8 h) (uint b)" using p0 by simp
  ultimately show ?thesis by simp
qed

lemma hash_fold_bound:
  fixes h :: int
  shows "0 \<le> h \<Longrightarrow> h < 2 ^ (8 * k) \<Longrightarrow>
    0 \<le> foldl (\<lambda>hash byte. or (push_bit 8 hash) (uint (byte :: 8 word))) h bs
    \<and> foldl (\<lambda>hash byte. or (push_bit 8 hash) (uint byte)) h bs < 2 ^ (8 * (k + length bs))"
proof (induction bs arbitrary: h k)
  case Nil
  then show ?case by simp
next
  case (Cons b bs)
  from hash_step_bound[OF Cons.prems, of b]
  have "0 \<le> or (push_bit 8 h) (uint b)" "or (push_bit 8 h) (uint b) < 2 ^ (8 * Suc k)"
    by simp_all
  from Cons.IH[OF this] show ?case by simp
qed

lemma hash_step_arith: "or (push_bit 8 (h::int)) (uint (b :: 8 word)) = h * 256 + uint b"
proof -
  have "push_bit 8 h + uint b = or (push_bit 8 h) (uint b)"
  proof (rule disjunctive_add)
    fix n
    show "\<not> bit (push_bit 8 h) n \<or> \<not> bit (uint b) n"
      by (auto simp: bit_push_bit_iff bit_uint_iff dest: bit_imp_le_length)
  qed
  then show ?thesis by (simp add: push_bit_eq_mult)
qed

lemma hashText_big_endian:
  "hashText digest t = foldl (\<lambda>hash byte. hash * 256 + uint byte) 0 (take 16 (digest t))"
  by (simp add: hashText_def hash_step_arith)

lemma hashText_bound: "0 \<le> hashText digest txt \<and> hashText digest txt < 2 ^ 128"
proof -
  have "(0::int) < 2 ^ (8 * 0)" by simp
  from hash_fold_bound[OF order_refl this, of "take 16 (digest txt)"]
  have nonneg: "0 \<le> hashText digest txt"
    and "hashText digest txt < 2 ^ (8 * length (take 16 (digest txt)))"
    by (simp_all add: hashText_def)
  moreover have "(2::int) ^ (8 * length (take 16 (digest txt))) \<le> 2 ^ 128"
    by (rule power_increasing) simp_all
  ultimately show ?thesis by simp
qed

lemma capacity_new8: "capacity (newGravitationalBit 8) = 128"
  by (simp add: capacity_def newGravitationalBit_def length_generateStates)

lemma decode_encode_128:
  "0 \<le> v \<Longrightarrow> v < 2 ^ 128 \<Longrightarrow> decode (encode (newGravitationalBit 8) v) = v"
  by (simp add: decode_encode capacity_new8 take_bit_int_eq_self)

lemma decode_deserialize_serialize:
  assumes "length (states b) = length (generateStates (nMax b))"
  shows "decode (deserialize (serialize b)) = decode b"
proof (rule bit_eqI)
  fix j
  let ?fresh = "generateStates (nMax b)"
  have st: "states (deserialize (serialize b)) =
              map (\<lambda>(s, f). f\<lparr>occupied := occupied s, energy := energy s\<rparr>) (zip (states b) ?fresh)"
    using assms by (simp add: deserialize_def serialize_def newGravitationalBit_def Let_def)
  have len: "length (states (deserialize (serialize b))) = length (states b)"
    unfolding st using assms by simp
  have "occupied (states (deserialize (serialize b)) ! j) = occupied (states b ! j)"
    if "j < length (states b)"
    unfolding st using that assms by simp
  then show "bit (decode (deserialize (serialize b))) j = bit (decode b) j"
    by (auto simp: bit_decode len)
qed

lemma nMax_encode: "nMax (encode b v) = nMax b"
  by (simp add: encode_def)

lemma verify_storeChunk: "verify digest (storeChunk digest docId title now i chunk)"
proof -
  let ?b = "fromText digest chunk 8"
  have "length (states ?b) = length (generateStates (nMax ?b))"
    by (simp add: fromText_def length_states_encode nMax_encode newGravitationalBit_def)
  then have "decode (deserialize (serialize ?b)) = decode ?b"
    by (rule decode_deserialize_serialize)
  also have "\<dots> = hashText digest chunk"
    using hashText_bound[of digest chunk] by (simp add: fromText_def decode_encode_128)
  finally show ?thesis by (simp add: verify_def storeChunk_def)
qed

text \<open>
  Claim C7. A bit with \<open>nMax = 8\<close> has 204 states and capacity 128, and decoding what
  was encoded gives back every value \<open>v\<close> with \<open>0 \<le> v < 2^128\<close>. For every chunk that
  \<open>store\<close> writes, the value decoded from the stored (serialised, then deserialised)
  bitmap equals the hash recomputed from the stored text, which is what \<open>verify\<close> checks;
  that hash, the first 16 digest bytes read big-endian, is a 128-bit value.
\<close>

theorem stored_fingerprint_roundtrip:
  "(0 \<le> v \<and> v < 2 ^ 128 \<longrightarrow> decode (encode (newGravitationalBit 8) v) = v)
   \<and> (\<forall>c \<in> set (store digest docId txt title now).
         decode (deserialize (chunk_bit c)) = hashText digest (chunk_text c)
         \<and> verify digest c)
   \<and> hashText digest txt
       = foldl (\<lambda>hash byte. hash * 256 + uint byte) 0 (take 16 (digest txt))
   \<and> 0 \<le> hashText digest txt \<and> hashText digest txt < 2 ^ 128"
proof -
  have "\<forall>c \<in> set (store digest docId txt title now). verify digest c"
    by (auto simp: store_def Let_def verify_storeChunk)
  then show ?thesis
    using hashText_bound[of digest "txt"] hashText_big_endian[of digest "txt"]
    by (auto simp: decode_encode_128 verify_def)
qed

lemma bumpFreq_invariant:
  assumes "\<forall>e \<in> set tbl. fst e \<in> W \<and> (snd e = NaN \<or> (\<exists>k. snd e = Num k \<and> 0 \<le> k))"
    and "w \<in> W"
  shows "\<forall>e \<in> set (bumpFreq w tbl).
           fst e \<in> W \<and> (snd e = NaN \<or> (\<exists>k. snd e = Num k \<and> 0 \<le> k))"
  using assms
proof (induction tbl)
  case Nil
  then show ?case by simp
next
  case (Cons e tbl)
  obtain k v where e: "e = (k, v)" by (cases e)
  show ?case
  proof (cases "k = w")
    case True
    have "js_add v (Num 1) = NaN \<or> (\<exists>j. js_add v (Num 1) = Num j \<and> 0 \<le> j)"
      using Cons.prems(1) e by (cases v) auto
    then show ?thesis using Cons.prems e True by auto
  next
    case False
    then show ?thesis using Cons e by auto
  qed
qed

lemma queryWordFreq_fold_invariant:
  assumes "\<forall>e \<in> set tbl. fst e \<in> W \<and> (snd e = NaN \<or> (\<exists>k. snd e = Num k \<and> 0 \<le> k))"
    and "set ws \<subseteq> W"
  shows "\<forall>e \<in> set (fold (\<lambda>w table. if w = ''__proto__'' then table else bumpFreq w table) ws tbl).
           fst e \<in> W \<and> (snd e = NaN \<or> (\<exists>k. snd e = Num k \<and> 0 \<le> k))"
  using assms
proof (induction ws arbitrary: tbl)
  case Nil
  then show ?case by simp
next
  case (Cons w ws)
  have "\<forall>e \<in> set (if w = ''__proto__'' then tbl else bumpFreq w tbl).
           fst e \<in> W \<and> (snd e = NaN \<or> (\<exists>k. snd e = Num k \<and> 0 \<le> k))"
    using bumpFreq_invariant[OF Cons.prems(1), of w] Cons.prems by simp
  from Cons.IH[OF this] Cons.prems(2) show ?case by simp
qed

lemma queryWordFreq_entries:
  "\<forall>e \<in> set (queryWordFreq query).
     fst e \<in> set (queryWords query) \<and> (snd e = NaN \<or> (\<exists>k. snd e = Num k \<and> 0 \<le> k))"
  unfolding queryWordFreq_def
  by (rule queryWordFreq_fold_invariant) simp_all

lemma idf_grows:
  assumes "C \<noteq> []" and "\<not> includes_str (toLowerCase (chunk_text d)) w"
  shows "idf C w \<le> idf (C @ [d]) w"
proof -
  let ?df = "length (filter (\<lambda>c. includes_str (toLowerCase (chunk_text c)) w) C)"
  have n: "0 < real (length C)" using assms(1) by simp
  have "real (length C) / real (1 + ?df) \<le> real (length (C @ [d])) / real (1 + ?df)"
    by (rule divide_right_mono) simp_all
  moreover have "0 < real (length C) / real (1 + ?df)" using n by simp
  ultimately have "ln (real (length C) / real (1 + ?df))
                   \<le> ln (real (length (C @ [d])) / real (1 + ?df))"
    by (simp only: ln_mono)
  then show ?thesis using assms(2) by (simp add: idf_def)
qed

lemma js_notBelow_refl: "js_notBelow a a"
  by (cases a) simp_all

lemma js_notBelow_scale: "js_notBelow b a \<Longrightarrow> 0 \<le> k \<Longrightarrow> js_notBelow (js_mul b (Num k)) (js_mul a (Num k))"
  by (cases a; cases b) (simp_all add: mult_right_mono)

lemma scoreStep_mono:
  assumes "js_notBelow s' s"
    and "idf C (fst e) \<le> idf C' (fst e)"
    and "snd e = NaN \<or> (\<exists>k. snd e = Num k \<and> 0 \<le> k)"
  shows "js_notBelow (scoreStep C' cw e s') (scoreStep C cw e s)"
proof (cases "length (filter (\<lambda>w. w = fst e) cw) > 0")
  case False
  then show ?thesis using assms(1) by (simp add: scoreStep_def Let_def)
next
  case True
  let ?tf = "real (length (filter (\<lambda>w. w = fst e) cw)) / real (length cw)"
  have tf: "0 \<le> ?tf" by simp
  from assms(3) show ?thesis
  proof
    assume "snd e = NaN"
    then show ?thesis using True by (cases s; cases s') (simp_all add: scoreStep_def Let_def)
  next
    assume "\<exists>k. snd e = Num k \<and> 0 \<le> k"
    then obtain k where k: "snd e = Num k" "0 \<le> k" by blast
    have "?tf * idf C (fst e) \<le> ?tf * idf C' (fst e)"
      using assms(2) tf by (rule mult_left_mono)
    then have "?tf * idf C (fst e) * k \<le> ?tf * idf C' (fst e) * k"
      using k(2) by (rule mult_right_mono)
    then show ?thesis
      using True k(1) assms(1)
      by (cases s; cases s') (simp_all add: scoreStep_def Let_def add_mono)
  qed
qed

lemma score_fold_mono:
  assumes "\<forall>e \<in> set es. idf C (fst e) \<le> idf C' (fst e)
                     \<and> (snd e = NaN \<or> (\<exists>k. snd e = Num k \<and> 0 \<le> k))"
    and "js_notBelow s' s"
  shows "js_notBelow (fold (scoreStep C' cw) es s') (fold (scoreStep C cw) es s)"
  using assms
proof (induction es arbitrary: s s')
  case Nil
  then show ?case by simp
next
  case (Cons e es)
  have "js_notBelow (scoreStep C' cw e s') (scoreStep C cw e s)"
    using Cons.prems by (intro scoreStep_mono) simp_all
  from Cons.IH[OF _ this] Cons.prems(1) show ?case by simp
qed

text \<open>
  Claim C8, amended. Adding to the corpus a chunk whose case-folded text contains none
  of the words of the query never decreases the score that \<open>search\<close> gives, for that
  query, to a chunk already in the corpus: the new score is a number not below the old
  one, or both are \<open>NaN\<close>.
\<close>

theorem score_monotone_for_unrelated_chunk:
  assumes "c \<in> set C"
    and "\<forall>w \<in> set (queryWords query). \<not> includes_str (toLowerCase (chunk_text d)) w"
  shows "js_notBelow (searchScore query (C @ [d]) c) (searchScore query C c)
       \<and> \<not> js_less (searchScore query (C @ [d]) c) (searchScore query C c)"
proof -
  have ne: "C \<noteq> []" using assms(1) by auto
  let ?cw = "filter (\<lambda>w. length w > 2) (splitWhitespace (toLowerCase (chunk_text c)))"
  have es: "\<forall>e \<in> set (queryWordFreq query). idf C (fst e) \<le> idf (C @ [d]) (fst e)
                     \<and> (snd e = NaN \<or> (\<exists>k. snd e = Num k \<and> 0 \<le> k))"
    using queryWordFreq_entries[of query] assms(2) idf_grows[OF ne] by blast
  have s1: "js_notBelow (fold (scoreStep (C @ [d]) ?cw) (queryWordFreq query) (Num 0))
                        (fold (scoreStep C ?cw) (queryWordFreq query) (Num 0))"
    using es by (rule score_fold_mono) simp
  have nb: "js_notBelow (searchScore query (C @ [d]) c) (searchScore query C c)"
    unfolding searchScore_def Let_def
    using s1 by (auto split: option.splits intro!: js_notBelow_scale)
  have "\<not> js_less b a" if "js_notBelow b a" for a b
    using that by (cases a; cases b) simp_all
  with nb show ?thesis by blast
qed

lemma search_results_reach_minScore:
  "set (search query topK minScore allChunks)
     \<subseteq> chunk_text ` {c \<in> set allChunks. js_ge (searchScore query allChunks c) (Num minScore)}"
proof (cases "allChunks = []")
  case True
  then show ?thesis by (simp add: search_def)
next
  case False
  let ?filtered = "filter (\<lambda>s. js_ge (snd s) (Num minScore))
                     (map (\<lambda>c. (c, searchScore query allChunks c)) allChunks)"
  have "set (take topK (sort_key (\<lambda>s. - jsValue (snd s)) ?filtered)) \<subseteq> set ?filtered"
    using set_take_subset[of topK "sort_key (\<lambda>s. - jsValue (snd s)) ?filtered"] by simp
  then show ?thesis using False by (auto simp: search_def Let_def)
qed

lemma exampleChunk_simps:
  "chunk_text (exampleChunk i t) = t" "chunk_title (exampleChunk i t) = None"
  by (simp_all add: exampleChunk_def storeChunk_def)

lemma example_strings:
  "toLowerCase ''cat'' = ''cat''" "toLowerCase ''dog'' = ''dog''" "toLowerCase ''emu'' = ''emu''"
  "toLowerCase ''fox'' = ''fox''" "toLowerCase ''cat nap'' = ''cat nap''"
  "includes_str ''cat'' ''cat''" "\<not> includes_str ''dog'' ''cat''" "\<not> includes_str ''emu'' ''cat''"
  "\<not> includes_str ''fox'' ''cat''" "includes_str ''cat nap'' ''cat''"
  "filter (\<lambda>w. length w > 2) (splitWhitespace ''cat'') = [''cat'']"
  "queryWords ''cat'' = [''cat'']"
  by code_simp+

lemma example_queryWordFreq: "queryWordFreq ''cat'' = [(''cat'', Num 1)]"
  by (simp add: queryWordFreq_def example_strings)

lemma example_score_before:
  "searchScore ''cat''
     [exampleChunk 0 ''cat'', exampleChunk 1 ''dog'', exampleChunk 2 ''emu'', exampleChunk 3 ''fox'']
     (exampleChunk 0 ''cat'') = Num (ln 2 * 2)"
  by (simp add: searchScore_def scoreStep_def idf_def Let_def exampleChunk_simps example_strings
        example_queryWordFreq)

lemma example_score_after:
  "searchScore ''cat''
     ([exampleChunk 0 ''cat'', exampleChunk 1 ''dog'', exampleChunk 2 ''emu'', exampleChunk 3 ''fox'']
      @ [exampleChunk 4 ''cat nap''])
     (exampleChunk 0 ''cat'') = Num (ln (5 / 3) * 2)"
  by (simp add: searchScore_def scoreStep_def idf_def Let_def exampleChunk_simps example_strings
        example_queryWordFreq)

lemma ln_2_lower: "1 / 20 \<le> ln (2::real)"
proof -
  have "exp (1 / 20 :: real) \<le> 1 + 1 / 20 + (1 / 20)\<^sup>2"
    by (rule exp_bound) simp_all
  also have "\<dots> \<le> 2" by (simp add: power2_eq_square)
  finally have e: "exp (1 / 20 :: real) \<le> 2" .
  have "(1 / 20 \<le> ln (2::real)) = (exp (1 / 20) \<le> (2::real))"
    by (rule ln_ge_iff) simp
  with e show ?thesis by blast
qed

text \<open>
  Claim C8 as stated fails: in a corpus of four chunks the chunk "cat" scores
  \<open>2 ln 2\<close> for the query "cat" (above the default minimum score 0.1); after one more
  chunk that contains the word is added, its score is \<open>2 ln (5/3)\<close>, which is less: the
  inverse document frequency of the word went down.
\<close>

theorem retrieval_monotone_counterexample:
  "js_ge (searchScore ''cat''
     [exampleChunk 0 ''cat'', exampleChunk 1 ''dog'', exampleChunk 2 ''emu'', exampleChunk 3 ''fox'']
     (exampleChunk 0 ''cat'')) (Num (1 / 10))
   \<and> js_less
     (searchScore ''cat''
        ([exampleChunk 0 ''cat'', exampleChunk 1 ''dog'', exampleChunk 2 ''emu'', exampleChunk 3 ''fox'']
         @ [exampleChunk 4 ''cat nap''])
        (exampleChunk 0 ''cat''))
     (searchScore ''cat''
        [exampleChunk 0 ''cat'', exampleChunk 1 ''dog'', exampleChunk 2 ''emu'', exampleChunk 3 ''fox'']
        (exampleChunk 0 ''cat''))"
proof -
  have "ln (5 / 3 :: real) < ln 2" by simp
  then show ?thesis
    unfolding example_score_before example_score_after
    using ln_2_lower by simp
qed

theorem score_monotone_for_unrelated_chunk_witness:
  "js_notBelow
     (searchScore ''cat'' ([exampleChunk 0 ''cat''] @ [exampleChunk 1 ''dog'']) (exampleChunk 0 ''cat''))
     (searchScore ''cat'' [exampleChunk 0 ''cat''] (exampleChunk 0 ''cat''))"
proof -
  have h1: "exampleChunk 0 ''cat'' \<in> set [exampleChunk 0 ''cat'']" by simp
  have h2: "\<forall>w \<in> set (queryWords ''cat'').
              \<not> includes_str (toLowerCase (chunk_text (exampleChunk 1 ''dog''))) w"
    by (simp add: exampleChunk_simps example_strings)
  from score_monotone_for_unrelated_chunk[OF h1 h2] show ?thesis by blast
qed

theorem stored_fingerprint_roundtrip_witness:
  "decode (encode (newGravitationalBit 8) 5) = 5
   \<and> verify exampleDigest (storeChunk exampleDigest ''doc'' None 0 0 ''A. B.'')"
proof -
  have m: "chunkText ''A. B.'' 300 = [''A. B.'']" by code_simp
  have s: "store exampleDigest ''doc'' ''A. B.'' None 0
           = [storeChunk exampleDigest ''doc'' None 0 0 ''A. B.'']"
    by (simp add: store_def m)
  from stored_fingerprint_roundtrip[of 5 exampleDigest "''doc''" "''A. B.''" None 0]
  show ?thesis unfolding s by simp
qed

section \<open>Properties of the configuration store\<close>








end
